theory Spec2Isabelle
  imports Complex_Main
begin

section \<open>Strings and cells\<close>

text \<open>
  A Python \<open>str\<close> is modelled as a \<open>string\<close>; a \<open>char\<close> stands for a code point
  below 256. The functions below single out ASCII characters only, except \<open>str.strip()\<close>,
  whose white space is given here for the code points below 256. A cell of a loaded
  record is either a \<open>str\<close> or some other object (a number, a timestamp), which is kept
  as its truth value and the text that \<open>str()\<close> gives for it.
\<close>

datatype cell = Text string | NonText bool string

fun py_str :: "cell \<Rightarrow> string" where
  "py_str (Text s) = s"
| "py_str (NonText b s) = s"

text \<open>The truth value of a cell, as \<^verbatim>\<open>not record[field]\<close> tests it.\<close>

fun truthy :: "cell \<Rightarrow> bool" where
  "truthy (Text s) = (s \<noteq> [])"
| "truthy (NonText b s) = b"

type_synonym record_row = "string \<rightharpoonup> cell"

text \<open>\<open>str.isspace\<close> on one code point below 256.\<close>

definition py_isspace :: "char \<Rightarrow> bool" where
  "py_isspace c =
     (let n = (of_char c :: nat)
      in (9 \<le> n \<and> n \<le> 13) \<or> (28 \<le> n \<and> n \<le> 32) \<or> n = 133 \<or> n = 160)"

text \<open>\<open>s.strip(chars)\<close>: drop the leading and the trailing characters that are in \<open>chars\<close>.\<close>

definition strip_chars :: "(char \<Rightarrow> bool) \<Rightarrow> string \<Rightarrow> string" where
  "strip_chars p s = rev (dropWhile p (rev (dropWhile p s)))"

definition strip :: "string \<Rightarrow> string" where
  "strip s = strip_chars py_isspace s"

text \<open>
  \<open>s.replace(old, new)\<close>: the occurrences of \<open>old\<close> are found from the left and do not
  overlap; with an empty \<open>old\<close>, \<open>new\<close> is put before every character and at the end.
\<close>

function replace_str :: "string \<Rightarrow> string \<Rightarrow> string \<Rightarrow> string" where
  "replace_str old new s =
     (if old = [] then new @ concat (map (\<lambda>c. c # new) s)
      else if s = [] then []
      else if take (length old) s = old then new @ replace_str old new (drop (length old) s)
      else hd s # replace_str old new (tl s))"
  by pat_completeness auto
termination
  by (relation "measure (\<lambda>(old, new, s). length s)") auto

declare replace_str.simps [simp del]

text \<open>\<open>str(n)\<close> for a natural number: its decimal digits.\<close>

definition digit_char :: "nat \<Rightarrow> char" where
  "digit_char d = ''0123456789'' ! d"

function str_nat :: "nat \<Rightarrow> string" where
  "str_nat n = (if n < 10 then [digit_char n] else str_nat (n div 10) @ [digit_char (n mod 10)])"
  by pat_completeness auto
termination
  by (relation "measure id") auto

declare str_nat.simps [simp del]

section \<open>Filename sanitisation\<close>

text \<open>
  \<^verbatim>\<open>cleaned = re.sub(r'[<>:"/\\|?*]', '_', str(filename))\<close>,
  \<^verbatim>\<open>cleaned = cleaned.strip(' .')\<close>, and \<^verbatim>\<open>"document"\<close> when nothing is left.
  The function is the same in both versions of the program.
\<close>

definition invalid_char :: "char \<Rightarrow> bool" where
  "invalid_char c \<longleftrightarrow>
     c \<in> {CHR ''<'', CHR ''>'', CHR '':'', CHR 0x22, CHR ''/'', CHR 0x5C,
          CHR ''|'', CHR ''?'', CHR ''*''}"

definition re_sub_invalid :: "string \<Rightarrow> string" where
  "re_sub_invalid s = map (\<lambda>c. if invalid_char c then CHR ''_'' else c) s"

definition space_or_dot :: "char \<Rightarrow> bool" where
  "space_or_dot c \<longleftrightarrow> c = CHR '' '' \<or> c = CHR ''.''"

definition clean_filename :: "string \<Rightarrow> string" where
  "clean_filename filename =
     (let cleaned = strip_chars space_or_dot (re_sub_invalid filename)
      in if cleaned = [] then ''document'' else cleaned)"

section \<open>Filename resolver (version 2)\<close>

text \<open>
  \<^verbatim>\<open>re.findall(r'\{([^}]+)\}', pattern)\<close>: scanning from the left, a match starts at a
  \<open>{\<close>, takes the longest non-empty run of characters other than \<open>}\<close> and needs a
  \<open>}\<close> right after it; the scan goes on behind the match, or one character further
  when there is no match at the position.
\<close>

definition not_close :: "char \<Rightarrow> bool" where
  "not_close c \<longleftrightarrow> c \<noteq> CHR ''}''"

function findall_vars :: "string \<Rightarrow> string list" where
  "findall_vars [] = []"
| "findall_vars (c # s) =
     (if c = CHR ''{'' \<and> takeWhile not_close s \<noteq> [] \<and> dropWhile not_close s \<noteq> []
      then takeWhile not_close s # findall_vars (tl (dropWhile not_close s))
      else findall_vars s)"
  by pat_completeness auto
termination
proof (relation "measure length")
  show "wf (measure length)" by simp
next
  fix c :: char and s :: string
  assume "c = CHR ''{'' \<and> takeWhile not_close s \<noteq> [] \<and> dropWhile not_close s \<noteq> []"
  have "length (dropWhile not_close s) \<le> length s"
    by (rule length_dropWhile_le)
  then have "length (tl (dropWhile not_close s)) \<le> length s"
    by simp
  then show "(tl (dropWhile not_close s), c # s) \<in> measure length" by simp
next
  fix c :: char and s :: string
  show "(s, c # s) \<in> measure length" by simp
qed

declare findall_vars.simps(2) [simp del]

definition braced :: "string \<Rightarrow> string" where
  "braced var = ''{'' @ var @ ''}''"

text \<open>One turn of the loop over the variables of the pattern.\<close>

definition substitute :: "record_row \<Rightarrow> string \<Rightarrow> string \<Rightarrow> string" where
  "substitute record filename var =
     (case record var of
        Some c \<Rightarrow> replace_str (braced var) (clean_filename (strip (py_str c))) filename
      | None \<Rightarrow> replace_str (braced var) ''Unknown'' filename)"

definition substituted :: "record_row \<Rightarrow> string \<Rightarrow> string" where
  "substituted record pattern = foldl (substitute record) pattern (findall_vars pattern)"

definition is_underscore :: "char \<Rightarrow> bool" where
  "is_underscore c \<longleftrightarrow> c = CHR ''_''"

definition fallback :: "nat \<Rightarrow> string" where
  "fallback index = ''document_'' @ str_nat (index + 1)"

text \<open>
  \<^verbatim>\<open>if not filename.strip('_') or filename.strip() == '': filename = f"document_{index+1}"\<close>.
  Nothing in the body raises for a dict, a \<open>str\<close> pattern and an \<open>int\<close> index, and the
  handler of the \<open>try\<close> returns the same fallback.
\<close>

definition generate_filename :: "record_row \<Rightarrow> string \<Rightarrow> nat \<Rightarrow> string" where
  "generate_filename record pattern index =
     (let filename = substituted record pattern
      in if strip_chars is_underscore filename = [] \<or> strip filename = []
         then fallback index else filename)"

section \<open>Processing one record (version 2)\<close>

text \<open>
  The exceptions that reach the handlers of the worker: a \<open>TypeError\<close> of the standard
  library for a path that is not a \<open>str\<close>, an \<open>AttributeError\<close> for a method of
  \<open>str\<close> called on another object, the \<open>ValueError\<close>s the worker raises itself, and
  whatever pandas, docxtpl, docx2pdf or the file system raise, kept by the text of
  \<open>str(e)\<close>.
\<close>

datatype exn = TypeError | AttributeError | ValueError string | Library string

text \<open>The calls into the template library, the converter and the file system.\<close>

datatype call =
    Load_template string
  | Render
  | Makedirs string
  | Backup string
  | Save string
  | Convert string string
  | Remove string

text \<open>
  A step of an iteration: a call whose exception leaves the iteration, a call whose
  exception is caught and logged on the spot (the best-effort backup and the removal
  of the temporary file), or a raise of the standard library before any call is made.
\<close>

datatype step = Call call | Quiet call | Raise exn

record config =
  template_path :: string
  output_dir :: string
  filename_pattern :: string
  create_word :: bool
  create_pdf :: bool
  backup_existing :: bool
  skip_errors :: bool
  open_output :: bool

text \<open>
  What the worker cannot decide by itself: the outcome of loading the data source
  (an unsupported extension is the \<open>ValueError\<close> of the worker), whether creating the
  output directory of the run raises, which call raises during which record,
  \<open>os.path.join\<close> of the platform on two \<open>str\<close>s, and the seconds on the clock
  when the loop is over.
\<close>

record world =
  loaded :: "exn + record_row list"
  makedirs_output :: "exn option"
  raises :: "nat \<Rightarrow> call \<Rightarrow> exn option"
  path_join :: "string \<Rightarrow> string \<Rightarrow> string"
  elapsed :: rat

text \<open>\<^verbatim>\<open>record.get(key, self.output_dir.get())\<close>\<close>

definition record_get :: "record_row \<Rightarrow> string \<Rightarrow> string \<Rightarrow> cell" where
  "record_get record key dflt = (case record key of Some c \<Rightarrow> c | None \<Rightarrow> Text dflt)"

definition doc_folder_path :: "config \<Rightarrow> record_row \<Rightarrow> cell" where
  "doc_folder_path cfg record = record_get record ''DocFolderPath'' (output_dir cfg)"

definition pdf_folder_path :: "config \<Rightarrow> record_row \<Rightarrow> cell" where
  "pdf_folder_path cfg record = record_get record ''PdfFolderPath'' (output_dir cfg)"

text \<open>\<open>os.makedirs\<close> and \<open>os.path.join\<close> raise \<open>TypeError\<close> on a folder that is not a \<open>str\<close>.\<close>

fun makedirs :: "cell \<Rightarrow> step list" where
  "makedirs (Text d) = [Call (Makedirs d)]"
| "makedirs (NonText b v) = [Raise TypeError]"

fun os_path_join :: "world \<Rightarrow> cell \<Rightarrow> string \<Rightarrow> exn + string" where
  "os_path_join w (Text d) name = Inr (path_join w d name)"
| "os_path_join w (NonText b v) name = Inl TypeError"

text \<open>
  \<open>_backup_existing_files\<close>: both paths are joined outside its \<open>try\<close> blocks; the
  existence test and the rename of each target are best effort.
\<close>

definition backup_existing_files :: "world \<Rightarrow> cell \<Rightarrow> cell \<Rightarrow> string \<Rightarrow> step list" where
  "backup_existing_files w doc_folder pdf_folder base_filename =
     (case os_path_join w doc_folder (base_filename @ ''.docx'') of
        Inl e \<Rightarrow> [Raise e]
      | Inr doc_path \<Rightarrow>
          Quiet (Backup doc_path) #
          (case os_path_join w pdf_folder (base_filename @ ''.pdf'') of
             Inl e \<Rightarrow> [Raise e]
           | Inr pdf_path \<Rightarrow> [Quiet (Backup pdf_path)]))"

definition temp_path :: "world \<Rightarrow> config \<Rightarrow> nat \<Rightarrow> string" where
  "temp_path w cfg i = path_join w (output_dir cfg) (''_temp_'' @ str_nat i @ ''.docx'')"

text \<open>
  The PDF block, entered with the \<open>doc_path\<close> left by the Word block (\<open>None\<close> when no
  Word file is written): \<^verbatim>\<open>if not doc_path\<close> saves a temporary document in the
  output directory of the run, which is removed after the conversion.
\<close>

definition create_pdf_steps ::
    "world \<Rightarrow> config \<Rightarrow> nat \<Rightarrow> cell \<Rightarrow> string \<Rightarrow> string option \<Rightarrow> step list" where
  "create_pdf_steps w cfg i pdf_folder base_filename doc_path =
     (let temp_doc_created = (doc_path = None \<or> doc_path = Some []);
          doc_path' = (if temp_doc_created then temp_path w cfg i else the doc_path)
      in (if temp_doc_created then [Call (Save doc_path')] else []) @
         (case os_path_join w pdf_folder (base_filename @ ''.pdf'') of
            Inl e \<Rightarrow> [Raise e]
          | Inr pdf_path \<Rightarrow>
              Call (Convert doc_path' pdf_path) #
              (if temp_doc_created then [Quiet (Remove doc_path')] else [])))"

text \<open>
  Saving the Word document and creating the PDF; the two versions of the program have
  the same code for it.
\<close>

definition save_steps ::
    "world \<Rightarrow> config \<Rightarrow> nat \<Rightarrow> cell \<Rightarrow> cell \<Rightarrow> string \<Rightarrow> step list" where
  "save_steps w cfg i doc_folder pdf_folder base_filename =
     (if create_word cfg
      then (case os_path_join w doc_folder (base_filename @ ''.docx'') of
              Inl e \<Rightarrow> [Raise e]
            | Inr doc_path \<Rightarrow>
                Call (Save doc_path) #
                (if create_pdf cfg
                 then create_pdf_steps w cfg i pdf_folder base_filename (Some doc_path)
                 else []))
      else (if create_pdf cfg
            then create_pdf_steps w cfg i pdf_folder base_filename None
            else []))"

text \<open>
  The body of the \<open>try\<close> of one iteration after the two messages, in the order of the
  source. Building the context of the template raises nothing and is part of \<open>Render\<close>.
\<close>

definition record_steps :: "world \<Rightarrow> config \<Rightarrow> nat \<Rightarrow> record_row \<Rightarrow> step list" where
  "record_steps w cfg i record =
     (let base_filename = generate_filename record (filename_pattern cfg) i;
          doc_folder = doc_folder_path cfg record;
          pdf_folder = pdf_folder_path cfg record
      in [Call (Load_template (template_path cfg)), Call Render] @
         makedirs doc_folder @
         (if create_pdf cfg then makedirs pdf_folder else []) @
         (if backup_existing cfg
          then backup_existing_files w doc_folder pdf_folder base_filename else []) @
         save_steps w cfg i doc_folder pdf_folder base_filename)"

text \<open>Running the steps: the calls made, and the exception that ended them, if any.\<close>

fun run_steps :: "(call \<Rightarrow> exn option) \<Rightarrow> step list \<Rightarrow> call list \<times> exn option" where
  "run_steps r [] = ([], None)"
| "run_steps r (Raise e # ss) = ([], Some e)"
| "run_steps r (Quiet c # ss) = (let (cs, x) = run_steps r ss in (c # cs, x))"
| "run_steps r (Call c # ss) =
     (case r c of
        Some e \<Rightarrow> ([c], Some e)
      | None \<Rightarrow> (let (cs, x) = run_steps r ss in (c # cs, x)))"

definition process_record ::
    "world \<Rightarrow> config \<Rightarrow> nat \<Rightarrow> record_row \<Rightarrow> call list \<times> exn option" where
  "process_record w cfg i record = run_steps (raises w i) (record_steps w cfg i record)"

definition fails :: "world \<Rightarrow> config \<Rightarrow> nat \<times> record_row \<Rightarrow> bool" where
  "fails w cfg row = (snd (process_record w cfg (fst row) (snd row)) \<noteq> None)"

section \<open>Processing one record (version 1)\<close>

text \<open>
  Version 1 skips a record that lacks a required field or has a false value for it,
  before anything is loaded.
\<close>

definition required_fields :: "string list" where
  "required_fields =
     [''First Name'', ''Last Name'', ''DOB'', ''Address'', ''Phone NO'',
      ''Doc Name'', ''NPI'', ''DOC Address'', ''Doc Phone no'']"

definition missing_fields :: "record_row \<Rightarrow> string list" where
  "missing_fields record =
     filter (\<lambda>field. case record field of None \<Rightarrow> True | Some c \<Rightarrow> \<not> truthy c)
       required_fields"

text \<open>\<^verbatim>\<open>record.get(key, '').strip()\<close>: only a \<open>str\<close> has the method.\<close>

fun get_strip :: "cell \<Rightarrow> exn + string" where
  "get_strip (Text s) = Inr (strip s)"
| "get_strip (NonText b v) = Inl AttributeError"

text \<open>
  \<^verbatim>\<open>base_filename = f"{first_name}_{last_name}".replace(' ', '_')\<close>, and
  \<^verbatim>\<open>f"document_{i+1}"\<close> when it is empty or \<open>_\<close>.
\<close>

definition v1_base_filename :: "nat \<Rightarrow> string \<Rightarrow> string \<Rightarrow> string" where
  "v1_base_filename i first_name last_name =
     (let base_filename = replace_str '' '' ''_'' (first_name @ ''_'' @ last_name)
      in if base_filename = [] \<or> base_filename = ''_'' then fallback i else base_filename)"

text \<open>
  The steps of an iteration of version 1 that passed the test of the required fields.
  An exception of \<open>os.makedirs\<close> is caught next to the call, any other one at the end
  of the iteration; both go on with the next record without counting a success.
\<close>

definition v1_record_steps :: "world \<Rightarrow> config \<Rightarrow> nat \<Rightarrow> record_row \<Rightarrow> step list" where
  "v1_record_steps w cfg i record =
     [Call (Load_template (template_path cfg)), Call Render] @
     (case get_strip (record_get record ''First Name'' []) of
        Inl e \<Rightarrow> [Raise e]
      | Inr first_name \<Rightarrow>
          (case get_strip (record_get record ''Last Name'' []) of
             Inl e \<Rightarrow> [Raise e]
           | Inr last_name \<Rightarrow>
               (let base_filename = v1_base_filename i first_name last_name;
                    doc_folder = doc_folder_path cfg record;
                    pdf_folder = pdf_folder_path cfg record
                in makedirs doc_folder @
                   (if create_pdf cfg then makedirs pdf_folder else []) @
                   save_steps w cfg i doc_folder pdf_folder base_filename)))"

text \<open>\<open>None\<close> for a record that is skipped for its missing fields.\<close>

definition v1_process_record ::
    "world \<Rightarrow> config \<Rightarrow> nat \<Rightarrow> record_row \<Rightarrow> (call list \<times> exn option) option" where
  "v1_process_record w cfg i record =
     (if missing_fields record \<noteq> [] then None
      else Some (run_steps (raises w i) (v1_record_steps w cfg i record)))"

section \<open>The worker (version 2)\<close>

text \<open>
  The messages of the queue. The text of a status and of the final summary is kept as the
  values its f-string interpolates:
  \<^verbatim>\<open>"Processing record {i+1} of {total_records}..."\<close>,
  \<^verbatim>\<open>"Completed in {elapsed_time:.1f}s: {success_count} successful, {error_count} errors"\<close>;
  the summary shows its errors line only \<^verbatim>\<open>if error_count > 0\<close> and its skipped line
  only \<^verbatim>\<open>if skipped_count > 0\<close>; the error text is \<^verbatim>\<open>"Mail merge failed: {str(e)}"\<close>.
  The progress value \<^verbatim>\<open>(i / total_records) * 100\<close> is taken as the exact quotient.
\<close>

datatype status_text =
    Initializing
  | Processing_record nat nat
  | Completed_in rat nat nat
  | Error_during_mail_merge
  | Ready

record summary =
  successful :: nat
  errors :: "nat option"
  skipped :: "nat option"
  seconds :: rat

datatype message =
    Status status_text
  | Progress rat
  | Success summary
  | Error exn

record run_state =
  success_count :: nat
  error_count :: nat
  skipped_count :: nat
  queue :: "message list"
  calls :: "(nat \<times> call) list"

definition put :: "message list \<Rightarrow> run_state \<Rightarrow> run_state" where
  "put ms st = st\<lparr>queue := queue st @ ms\<rparr>"

definition progress_of :: "nat \<Rightarrow> nat \<Rightarrow> rat" where
  "progress_of i total_records = (of_nat i / of_nat total_records) * 100"

text \<open>
  The loop over \<open>enumerate(records)\<close>. An exception of an iteration is counted; it is
  raised again when skipping errors is off, and the record counts as skipped otherwise.
\<close>

fun process_records ::
    "world \<Rightarrow> config \<Rightarrow> nat \<Rightarrow> (nat \<times> record_row) list \<Rightarrow> run_state \<Rightarrow> run_state \<times> exn option"
where
  "process_records w cfg total_records [] st = (st, None)"
| "process_records w cfg total_records ((i, record) # rows) st =
     (let st1 = put [Status (Processing_record (i + 1) total_records),
                     Progress (progress_of i total_records)] st;
          (cs, x) = process_record w cfg i record;
          st2 = st1\<lparr>calls := calls st1 @ map (Pair i) cs\<rparr>
      in case x of
           None \<Rightarrow>
             process_records w cfg total_records rows
               (st2\<lparr>success_count := success_count st2 + 1\<rparr>)
         | Some e \<Rightarrow>
             (let st3 = st2\<lparr>error_count := error_count st2 + 1\<rparr>
              in if \<not> skip_errors cfg then (st3, Some e)
                 else process_records w cfg total_records rows
                        (st3\<lparr>skipped_count := skipped_count st3 + 1\<rparr>)))"

definition result_msg :: "world \<Rightarrow> run_state \<Rightarrow> summary" where
  "result_msg w st =
     \<lparr>successful = success_count st,
      errors = (if error_count st > 0 then Some (error_count st) else None),
      skipped = (if skipped_count st > 0 then Some (skipped_count st) else None),
      seconds = elapsed w\<rparr>"

definition initial_state :: run_state where
  "initial_state =
     \<lparr>success_count = 0, error_count = 0, skipped_count = 0,
      queue = [Status Initializing, Progress 0], calls = []\<rparr>"

text \<open>
  The body of the outer \<open>try\<close>. Opening the output folder at the end catches its own
  exceptions and enqueues nothing.
\<close>

definition worker_try :: "world \<Rightarrow> config \<Rightarrow> run_state \<times> exn option" where
  "worker_try w cfg =
     (case loaded w of
        Inl e \<Rightarrow> (initial_state, Some e)
      | Inr records \<Rightarrow>
          (let total_records = length records
           in if total_records = 0
              then (initial_state, Some (ValueError ''No records found in data source''))
              else (case makedirs_output w of
                      Some e \<Rightarrow> (initial_state, Some e)
                    | None \<Rightarrow>
                        (case process_records w cfg total_records (enumerate 0 records)
                                initial_state of
                           (st, Some e) \<Rightarrow> (st, Some e)
                         | (st, None) \<Rightarrow>
                             (put [Progress 100,
                                   Status (Completed_in (elapsed w) (success_count st)
                                             (error_count st)),
                                   Success (result_msg w st)] st, None)))))"

text \<open>The handler of the outer \<open>try\<close> and its \<open>finally\<close>.\<close>

definition mail_merge_worker :: "world \<Rightarrow> config \<Rightarrow> run_state" where
  "mail_merge_worker w cfg =
     (case worker_try w cfg of
        (st, Some e) \<Rightarrow> put [Status Error_during_mail_merge, Error e, Status Ready] st
      | (st, None) \<Rightarrow> put [Status Ready] st)"

definition aborted :: "world \<Rightarrow> config \<Rightarrow> bool" where
  "aborted w cfg = (snd (worker_try w cfg) \<noteq> None)"


definition attempted :: "run_state \<Rightarrow> nat set" where
  "attempted st = fst ` set (calls st)"

section \<open>The resolver of the specification\<close>

text \<open>
  The specification describes the resolver on a pattern that is made of literal text and
  placeholders \<open>{Name}\<close>: every placeholder is replaced by the sanitised value of its
  field, or by \<open>Unknown\<close> when the record has no such field. The following definitions
  follow these words; they are compared with \<open>generate_filename\<close> below.
\<close>

datatype token = Lit string | Var string

fun token_text :: "token \<Rightarrow> string" where
  "token_text (Lit l) = l"
| "token_text (Var v) = braced v"

definition render :: "token list \<Rightarrow> string" where
  "render toks = concat (map token_text toks)"





text \<open>Replacing one placeholder in a token list, and the placeholders of a token list.\<close>

definition subst_token :: "string \<Rightarrow> string \<Rightarrow> token \<Rightarrow> token" where
  "subst_token v new t = (if t = Var v then Lit new else t)"




section \<open>Observations on a run\<close>


text \<open>The state after the two messages of an iteration and the calls of its record.\<close>

definition begin_record :: "nat \<Rightarrow> nat \<Rightarrow> call list \<Rightarrow> run_state \<Rightarrow> run_state" where
  "begin_record t i cs st =
     st\<lparr>queue := queue st @ [Status (Processing_record (i + 1) t), Progress (progress_of i t)],
        calls := calls st @ map (Pair i) cs\<rparr>"


text \<open>
  The output targets of the specification: the Word file of a record lies in the folder
  of its field \<open>DocFolderPath\<close> and the PDF file in the folder of its field
  \<open>PdfFolderPath\<close>, each replaced by the output directory of the run when the record
  has no such field. The predicate says so of the calls of one iteration: the files that
  are asked for are written there, and no PDF and no Word file other than the temporary
  one is written anywhere else.
\<close>

definition spec_folder :: "record_row \<Rightarrow> string \<Rightarrow> config \<Rightarrow> cell" where
  "spec_folder record field cfg =
     (case record field of Some c \<Rightarrow> c | None \<Rightarrow> Text (output_dir cfg))"

fun targets :: "world \<Rightarrow> cell \<Rightarrow> string \<Rightarrow> string \<Rightarrow> string list" where
  "targets w (Text d) base_filename ext = [path_join w d (base_filename @ ext)]"
| "targets w (NonText b v) base_filename ext = []"

fun is_save_to :: "string list \<Rightarrow> call \<Rightarrow> bool" where
  "is_save_to ps (Save p) = (p \<in> set ps)"
| "is_save_to ps c = False"

fun is_convert_to :: "string list \<Rightarrow> call \<Rightarrow> bool" where
  "is_convert_to ps (Convert a p) = (p \<in> set ps)"
| "is_convert_to ps c = False"

fun call_in_place :: "string list \<Rightarrow> string list \<Rightarrow> string \<Rightarrow> call \<Rightarrow> bool" where
  "call_in_place word pdf temp (Save p) = (p \<in> set word \<or> p = temp)"
| "call_in_place word pdf temp (Convert a p) = (p \<in> set pdf)"
| "call_in_place word pdf temp c = True"

definition spec_outputs ::
    "world \<Rightarrow> config \<Rightarrow> nat \<Rightarrow> record_row \<Rightarrow> string \<Rightarrow> call list \<Rightarrow> bool" where
  "spec_outputs w cfg i record base_filename cs =
     (let word = targets w (spec_folder record ''DocFolderPath'' cfg) base_filename ''.docx'';
          pdf = targets w (spec_folder record ''PdfFolderPath'' cfg) base_filename ''.pdf''
      in (create_word cfg \<longrightarrow> list_ex (is_save_to word) cs) \<and>
         (create_pdf cfg \<longrightarrow> list_ex (is_convert_to pdf) cs) \<and>
         list_all (call_in_place word pdf (temp_path w cfg i)) cs)"

text \<open>The same for a step, whatever way its exception takes.\<close>

fun step_in_place :: "string list \<Rightarrow> string list \<Rightarrow> string \<Rightarrow> step \<Rightarrow> bool" where
  "step_in_place word pdf temp (Call c) = call_in_place word pdf temp c"
| "step_in_place word pdf temp (Quiet c) = call_in_place word pdf temp c"
| "step_in_place word pdf temp (Raise e) = True"

section \<open>Example runs\<close>

definition example_config :: config where
  "example_config =
     \<lparr>template_path = ''template.docx'', output_dir = ''out'',
      filename_pattern = ''{First Name}_{Last Name}'',
      create_word = True, create_pdf = True, backup_existing = False,
      skip_errors = True, open_output = False\<rparr>"

definition strict_config :: config where
  "strict_config = example_config\<lparr>skip_errors := False\<rparr>"

definition ann :: record_row where
  "ann = [''First Name'' \<mapsto> Text ''Ann'', ''Last Name'' \<mapsto> Text ''Lee'']"

definition bob :: record_row where
  "bob = [''First Name'' \<mapsto> Text ''Bob'', ''Last Name'' \<mapsto> Text ''Ray'',
          ''DocFolderPath'' \<mapsto> Text ''letters'', ''PdfFolderPath'' \<mapsto> Text ''prints'']"

text \<open>A record with every field that version 1 requires.\<close>

definition dana :: record_row where
  "dana = [''First Name'' \<mapsto> Text ''Dana'', ''Last Name'' \<mapsto> Text ''Fox'',
           ''DOB'' \<mapsto> Text ''1950-01-02'', ''Address'' \<mapsto> Text ''1 Elm St'',
           ''Phone NO'' \<mapsto> NonText True ''5550100'', ''Doc Name'' \<mapsto> Text ''Dr Who'',
           ''NPI'' \<mapsto> NonText True ''1234567890'', ''DOC Address'' \<mapsto> Text ''2 Oak St'',
           ''Doc Phone no'' \<mapsto> NonText True ''5550101'',
           ''PdfFolderPath'' \<mapsto> Text ''prints'']"

text \<open>A world in which rendering the record of index 1 raises and nothing else does.\<close>

definition second_render_fails :: "nat \<Rightarrow> call \<Rightarrow> exn option" where
  "second_render_fails i c =
     (if i = 1 \<and> c = Render then Some (Library ''render failed'') else None)"

definition slash_join :: "string \<Rightarrow> string \<Rightarrow> string" where
  "slash_join d name = d @ ''/'' @ name"

definition example_world :: "record_row list \<Rightarrow> world" where
  "example_world records =
     \<lparr>loaded = Inr records, makedirs_output = None, raises = second_render_fails,
      path_join = slash_join, elapsed = 2\<rparr>"

section \<open>Sanitisation and stripping\<close>


lemma strip_chars_Nil_iff: "strip_chars p s = [] \<longleftrightarrow> (\<forall>c\<in>set s. p c)"
proof
  assume "strip_chars p s = []"
  then have "dropWhile p (rev (dropWhile p s)) = []" by (simp add: strip_chars_def)
  then have "\<forall>c\<in>set (dropWhile p s). p c" by simp
  then have "dropWhile p (dropWhile p s) = []" by (simp only: dropWhile_eq_Nil_conv)
  then have "dropWhile p s = []" by (simp only: dropWhile_idem)
  then show "\<forall>c\<in>set s. p c" by simp
next
  assume "\<forall>c\<in>set s. p c"
  then have "dropWhile p s = []" by simp
  then show "strip_chars p s = []" by (simp only: strip_chars_def dropWhile.simps rev.simps)
qed

lemma set_strip_chars: "set (strip_chars p s) \<subseteq> set s"
  unfolding strip_chars_def
  by (metis set_dropWhileD set_rev subsetI)

lemma hd_dropWhile_rev: "dropWhile p (rev xs) \<noteq> [] \<Longrightarrow> xs \<noteq> [] \<and> hd (rev (dropWhile p (rev xs))) = hd xs"
proof (induction xs rule: rev_induct)
  case Nil then show ?case by simp
next
  case (snoc x xs)
  then show ?case by (cases xs) (auto split: if_splits)
qed

lemma strip_chars_idem: "strip_chars p (strip_chars p s) = strip_chars p s"
proof (cases "strip_chars p s = []")
  case True
  have "strip_chars p [] = []" by (simp add: strip_chars_def)
  with True show ?thesis by simp
next
  case False
  let ?u = "dropWhile p s"
  let ?t = "strip_chars p s"
  from False have ne: "dropWhile p (rev ?u) \<noteq> []" by (simp add: strip_chars_def)
  then have u: "?u \<noteq> []" and hd: "hd ?t = hd ?u"
    using hd_dropWhile_rev [of p ?u] by (simp_all add: strip_chars_def)
  from u have "\<not> p (hd ?u)" by (rule hd_dropWhile)
  with hd False have "dropWhile p ?t = ?t"
    by (cases ?t) auto
  moreover have "dropWhile p (rev ?t) = rev ?t"
    by (simp add: strip_chars_def)
  ultimately show ?thesis by (simp add: strip_chars_def [of p "strip_chars p s"])
qed

lemma re_sub_invalid_id: "\<forall>c\<in>set s. \<not> invalid_char c \<Longrightarrow> re_sub_invalid s = s"
  by (simp add: re_sub_invalid_def map_idI)

lemma re_sub_invalid_valid: "c \<in> set (re_sub_invalid s) \<Longrightarrow> \<not> invalid_char c"
  by (auto simp: re_sub_invalid_def invalid_char_def)

lemma clean_document: "clean_filename ''document'' = ''document''"
  by (simp add: clean_filename_def re_sub_invalid_def invalid_char_def strip_chars_def space_or_dot_def)

text \<open>
  Claim C7. Sanitisation is idempotent: cleaning a cleaned name returns it unchanged,
  for every input string.
\<close>

theorem clean_filename_idempotent: "clean_filename (clean_filename s) = clean_filename s"
proof (cases "strip_chars space_or_dot (re_sub_invalid s) = []")
  case True
  then have "clean_filename s = ''document''" by (simp add: clean_filename_def)
  then show ?thesis by (simp add: clean_document)
next
  case False
  let ?t = "strip_chars space_or_dot (re_sub_invalid s)"
  from False have t: "clean_filename s = ?t" by (simp add: clean_filename_def)
  have "\<forall>c\<in>set ?t. \<not> invalid_char c"
    using set_strip_chars [of space_or_dot "re_sub_invalid s"] re_sub_invalid_valid by blast
  then have "re_sub_invalid ?t = ?t" by (rule re_sub_invalid_id)
  then have "clean_filename ?t = ?t"
    using False by (simp add: clean_filename_def strip_chars_idem)
  with t show ?thesis by simp
qed

section \<open>Patterns of literal text and placeholders\<close>





lemma subst_token_simps [simp]:
  "subst_token v new (Lit l) = Lit l"
  "subst_token v new (Var w) = (if w = v then Lit new else Var w)"
  by (auto simp: subst_token_def)

















section \<open>Properties of the filename resolver\<close>

lemma fallback_usable: "\<exists>c\<in>set (fallback i). c \<noteq> CHR ''_''"
  by (simp add: fallback_def)

text \<open>
  Claim C1. For every record, pattern and index the resolver returns a stem that is
  neither empty nor made of underscores only; whenever the substituted pattern is
  empty or made of underscores only, the stem is \<open>document_<index+1>\<close>.
\<close>

theorem generate_filename_usable:
  "generate_filename record pattern i \<noteq> [] \<and>
   \<not> (\<forall>c\<in>set (generate_filename record pattern i). c = CHR ''_'') \<and>
   (substituted record pattern = [] \<or> (\<forall>c\<in>set (substituted record pattern). c = CHR ''_'')
      \<longrightarrow> generate_filename record pattern i = ''document_'' @ str_nat (i + 1))"
proof -
  let ?stem = "substituted record pattern"
  let ?bad = "strip_chars is_underscore ?stem = [] \<or> strip ?stem = []"
  have under: "strip_chars is_underscore ?stem = [] \<longleftrightarrow> (\<forall>c\<in>set ?stem. c = CHR ''_'')"
    by (simp add: strip_chars_Nil_iff is_underscore_def)
  have some: "\<exists>c\<in>set (generate_filename record pattern i). c \<noteq> CHR ''_''"
  proof (cases ?bad)
    case True
    then have "generate_filename record pattern i = fallback i"
      by (simp add: generate_filename_def)
    then show ?thesis using fallback_usable [of i] by simp
  next
    case False
    then have "generate_filename record pattern i = ?stem"
      by (simp add: generate_filename_def)
    moreover from False under have "\<exists>c\<in>set ?stem. c \<noteq> CHR ''_''" by blast
    ultimately show ?thesis by simp
  qed
  then have "generate_filename record pattern i \<noteq> []" by auto
  moreover have "?stem = [] \<or> (\<forall>c\<in>set ?stem. c = CHR ''_'')
      \<longrightarrow> generate_filename record pattern i = ''document_'' @ str_nat (i + 1)"
    using under by (auto simp: generate_filename_def fallback_def)
  ultimately show ?thesis using some by blast
qed

theorem generate_filename_usable_witness:
  "substituted Map.empty ''_'' = ''_'' \<and>
   generate_filename Map.empty ''_'' 4 = ''document_5''"
  using generate_filename_usable [of Map.empty "''_''" 4]
  by (simp add: substituted_def findall_vars.simps(2) str_nat.simps digit_char_def)

text \<open>
  Claim C2. With the pattern \<open>{First Name}_{Last Name}\<close>, the record of Ann Lee
  resolves to \<open>Ann_Lee\<close>. A record whose two names are empty resolves to
  \<open>document_document\<close>, because each empty value is sanitised to \<open>document\<close>
  before the test for an empty stem; the fallback for index 0 would be \<open>document_1\<close>.
\<close>

theorem default_pattern_examples:
  "generate_filename [''First Name'' \<mapsto> Text ''Ann'', ''Last Name'' \<mapsto> Text ''Lee'']
      ''{First Name}_{Last Name}'' i = ''Ann_Lee'' \<and>
   generate_filename [''First Name'' \<mapsto> Text '''', ''Last Name'' \<mapsto> Text '''']
      ''{First Name}_{Last Name}'' 0 = ''document_document'' \<and>
   fallback 0 = ''document_1''"
  by (simp add: generate_filename_def substituted_def findall_vars.simps(2) not_close_def
      substitute_def braced_def replace_str.simps clean_filename_def strip_def strip_chars_def
      re_sub_invalid_def py_isspace_def is_underscore_def space_or_dot_def invalid_char_def
      fallback_def str_nat.simps digit_char_def)




section \<open>Properties of the worker\<close>

lemma put_simps [simp]:
  "success_count (put ms st) = success_count st"
  "error_count (put ms st) = error_count st"
  "skipped_count (put ms st) = skipped_count st"
  "queue (put ms st) = queue st @ ms"
  "calls (put ms st) = calls st"
  by (simp_all add: put_def)


lemma run_steps_Call_nonempty: "fst (run_steps r (Call c # ss)) \<noteq> []"
  by (simp split: option.splits prod.splits)

lemma process_record_nonempty: "fst (process_record w cfg i r) \<noteq> []"
  unfolding process_record_def record_steps_def Let_def append_Cons
  by (rule run_steps_Call_nonempty)

lemma process_records_ok:
  "\<not> fails w cfg (i, r) \<Longrightarrow>
   process_records w cfg t ((i, r) # rows) st =
   process_records w cfg t rows
     ((begin_record t i (fst (process_record w cfg i r)) st)
        \<lparr>success_count := success_count st + 1\<rparr>)"
  by (cases "process_record w cfg i r") (auto simp: fails_def begin_record_def put_def Let_def)

lemma process_records_skip:
  "fails w cfg (i, r) \<Longrightarrow> skip_errors cfg \<Longrightarrow>
   process_records w cfg t ((i, r) # rows) st =
   process_records w cfg t rows
     ((begin_record t i (fst (process_record w cfg i r)) st)
        \<lparr>error_count := error_count st + 1, skipped_count := skipped_count st + 1\<rparr>)"
  by (cases "process_record w cfg i r") (auto simp: fails_def begin_record_def put_def Let_def)

lemma process_records_raise:
  "fails w cfg (i, r) \<Longrightarrow> \<not> skip_errors cfg \<Longrightarrow>
   process_records w cfg t ((i, r) # rows) st =
   ((begin_record t i (fst (process_record w cfg i r)) st)\<lparr>error_count := error_count st + 1\<rparr>,
    snd (process_record w cfg i r))"
  by (cases "process_record w cfg i r") (auto simp: fails_def begin_record_def put_def Let_def)


lemma begin_record_simps [simp]:
  "success_count (begin_record t i cs st) = success_count st"
  "error_count (begin_record t i cs st) = error_count st"
  "skipped_count (begin_record t i cs st) = skipped_count st"
  "queue (begin_record t i cs st) =
     queue st @ [Status (Processing_record (i + 1) t), Progress (progress_of i t)]"
  "calls (begin_record t i cs st) = calls st @ map (Pair i) cs"
  by (simp_all add: begin_record_def)

lemma fst_Pair_image: "cs \<noteq> [] \<Longrightarrow> fst ` Pair i ` set cs = {i}"
  by (simp add: image_image image_constant_conv)

lemma attempted_begin_record:
  "cs \<noteq> [] \<Longrightarrow> attempted (begin_record t i cs st\<lparr>success_count := a\<rparr>) = insert i (attempted st)"
  "cs \<noteq> [] \<Longrightarrow> attempted (begin_record t i cs st\<lparr>error_count := a\<rparr>) = insert i (attempted st)"
  "cs \<noteq> [] \<Longrightarrow> attempted (begin_record t i cs st\<lparr>error_count := a, skipped_count := b\<rparr>)
     = insert i (attempted st)"
  by (simp_all add: attempted_def image_Un fst_Pair_image)

lemma process_records_skip_errors:
  "skip_errors cfg \<Longrightarrow>
   snd (process_records w cfg t rows st) = None \<and>
   success_count (fst (process_records w cfg t rows st)) =
     success_count st + length (filter (\<lambda>row. \<not> fails w cfg row) rows) \<and>
   error_count (fst (process_records w cfg t rows st)) =
     error_count st + length (filter (fails w cfg) rows) \<and>
   skipped_count (fst (process_records w cfg t rows st)) =
     skipped_count st + length (filter (fails w cfg) rows) \<and>
   attempted (fst (process_records w cfg t rows st)) = attempted st \<union> fst ` set rows"
proof (induction rows arbitrary: st)
  case Nil
  show ?case by simp
next
  case (Cons row rows)
  obtain i r where row: "row = (i, r)" by (cases row)
  note ne = process_record_nonempty [of w cfg i r]
  show ?case
  proof (cases "fails w cfg (i, r)")
    case True
    show ?thesis
      unfolding row process_records_skip [OF True Cons.prems]
      using Cons.IH [OF Cons.prems] True ne by (simp add: attempted_begin_record)
  next
    case False
    show ?thesis
      unfolding row process_records_ok [OF False]
      using Cons.IH [OF Cons.prems] False ne by (simp add: attempted_begin_record)
  qed
qed





lemma process_records_abort:
  assumes "\<not> skip_errors cfg" "fails w cfg (j, r)"
  shows "list_all (\<lambda>row. \<not> fails w cfg row) pre \<Longrightarrow>
    snd (process_records w cfg t (pre @ (j, r) # post) st) = snd (process_record w cfg j r) \<and>
    success_count (fst (process_records w cfg t (pre @ (j, r) # post) st)) =
      success_count st + length pre \<and>
    error_count (fst (process_records w cfg t (pre @ (j, r) # post) st)) = error_count st + 1 \<and>
    skipped_count (fst (process_records w cfg t (pre @ (j, r) # post) st)) = skipped_count st \<and>
    attempted (fst (process_records w cfg t (pre @ (j, r) # post) st)) =
      attempted st \<union> fst ` set pre \<union> {j}"
proof (induction pre arbitrary: st)
  case Nil
  show ?case
    unfolding append_Nil process_records_raise [OF assms(2,1)]
    using process_record_nonempty [of w cfg j r] by (simp add: attempted_begin_record)
next
  case (Cons row pre)
  obtain i r' where row: "row = (i, r')" by (cases row)
  from Cons.prems row have ok: "\<not> fails w cfg (i, r')" and pre: "list_all (\<lambda>row. \<not> fails w cfg row) pre"
    by simp_all
  show ?case
    unfolding row append_Cons process_records_ok [OF ok]
    using Cons.IH [OF pre] process_record_nonempty [of w cfg i r']
    by (simp add: attempted_begin_record)
qed

lemma worker_try_loop:
  assumes "loaded w = Inr records" "records \<noteq> []" "makedirs_output w = None"
  shows "worker_try w cfg =
    (let R = process_records w cfg (length records) (enumerate 0 records) initial_state
     in if snd R = None
        then (put [Progress 100,
                   Status (Completed_in (elapsed w) (success_count (fst R)) (error_count (fst R))),
                   Success (result_msg w (fst R))] (fst R), None)
        else R)"
  using assms
  by (cases "process_records w cfg (length records) (enumerate 0 records) initial_state")
    (auto simp: worker_try_def Let_def split: option.splits)

lemma initial_state_simps [simp]:
  "success_count initial_state = 0"
  "error_count initial_state = 0"
  "skipped_count initial_state = 0"
  "queue initial_state = [Status Initializing, Progress 0]"
  "calls initial_state = []"
  "attempted initial_state = {}"
  by (simp_all add: initial_state_def attempted_def)

lemma attempted_put [simp]: "attempted (put ms st) = attempted st"
  by (simp add: attempted_def)

lemma result_msg_put [simp]: "result_msg w (put ms st) = result_msg w st"
  by (simp add: result_msg_def)

lemma fst_set_enumerate: "fst ` set (enumerate n xs) = {n..<n + length xs}"
  by (metis list.set_map map_fst_enumerate set_upt)

lemma length_filter_not:
  "length (filter (\<lambda>x. \<not> P x) xs) = length xs - length (filter P xs)"
  using sum_length_filter_compl [of P xs] by simp

text \<open>
  Claim C3, for a batch that is not empty. With skipping of errors on, once the data is
  loaded and the output directory of the run exists, a run over \<open>N\<close> records of which
  \<open>k\<close> fail attempts all \<open>N\<close> records, does not abort, and reports \<open>N - k\<close>
  successes and \<open>k\<close> errors.
\<close>

theorem skip_errors_counts:
  assumes "skip_errors cfg" "loaded w = Inr records" "records \<noteq> []" "makedirs_output w = None"
  shows "\<not> aborted w cfg \<and>
    attempted (mail_merge_worker w cfg) = {0..<length records} \<and>
    success_count (mail_merge_worker w cfg) =
      length records - length (filter (fails w cfg) (enumerate 0 records)) \<and>
    error_count (mail_merge_worker w cfg) = length (filter (fails w cfg) (enumerate 0 records)) \<and>
    Status (Completed_in (elapsed w)
        (length records - length (filter (fails w cfg) (enumerate 0 records)))
        (length (filter (fails w cfg) (enumerate 0 records))))
      \<in> set (queue (mail_merge_worker w cfg)) \<and>
    Success (result_msg w (mail_merge_worker w cfg)) \<in> set (queue (mail_merge_worker w cfg)) \<and>
    successful (result_msg w (mail_merge_worker w cfg)) =
      length records - length (filter (fails w cfg) (enumerate 0 records)) \<and>
    errors (result_msg w (mail_merge_worker w cfg)) =
      (if 0 < length (filter (fails w cfg) (enumerate 0 records))
       then Some (length (filter (fails w cfg) (enumerate 0 records))) else None)"
proof -
  let ?R = "process_records w cfg (length records) (enumerate 0 records) initial_state"
  let ?k = "length (filter (fails w cfg) (enumerate 0 records))"
  note L = process_records_skip_errors [OF assms(1), of w "length records" "enumerate 0 records"
      initial_state]
  from L have none: "snd ?R = None" by simp
  from L have succ: "success_count (fst ?R) = length records - ?k"
    by (simp add: length_filter_not)
  from L have err: "error_count (fst ?R) = ?k" by simp
  from L have att: "attempted (fst ?R) = {0..<length records}"
    by (simp add: fst_set_enumerate)
  have wt: "worker_try w cfg =
      (put [Progress 100, Status (Completed_in (elapsed w) (length records - ?k) ?k),
            Success (result_msg w (fst ?R))] (fst ?R), None)"
    unfolding worker_try_loop [OF assms(2-4)] Let_def using none succ err by simp
  have mmw: "mail_merge_worker w cfg =
      put [Status Ready] (put [Progress 100, Status (Completed_in (elapsed w) (length records - ?k) ?k),
            Success (result_msg w (fst ?R))] (fst ?R))"
    by (simp add: mail_merge_worker_def wt)
  have "\<not> aborted w cfg" by (simp add: aborted_def wt)
  moreover have "attempted (mail_merge_worker w cfg) = {0..<length records}"
    unfolding mmw using att by simp
  moreover have "success_count (mail_merge_worker w cfg) = length records - ?k"
    unfolding mmw using succ by simp
  moreover have "error_count (mail_merge_worker w cfg) = ?k"
    unfolding mmw using err by simp
  moreover have "Status (Completed_in (elapsed w) (length records - ?k) ?k)
      \<in> set (queue (mail_merge_worker w cfg))"
    unfolding mmw by simp
  moreover have "Success (result_msg w (mail_merge_worker w cfg)) \<in> set (queue (mail_merge_worker w cfg))"
    unfolding mmw by simp
  moreover have "successful (result_msg w (mail_merge_worker w cfg)) = length records - ?k"
    unfolding mmw using succ by (simp add: result_msg_def)
  moreover have "errors (result_msg w (mail_merge_worker w cfg)) =
      (if 0 < ?k then Some ?k else None)"
    unfolding mmw using err by (simp add: result_msg_def)
  ultimately show ?thesis by simp
qed

lemma worker_try_cases:
  obtains (early) e where "worker_try w cfg = (initial_state, Some e)"
  | (looped) records where "loaded w = Inr records" "records \<noteq> []" "makedirs_output w = None"
proof (cases "loaded w")
  case (Inl e)
  then have "worker_try w cfg = (initial_state, Some e)" by (simp add: worker_try_def)
  then show ?thesis by (rule early)
next
  case (Inr records)
  show ?thesis
  proof (cases "records = []")
    case True
    with Inr have "worker_try w cfg =
        (initial_state, Some (ValueError ''No records found in data source''))"
      by (simp add: worker_try_def)
    then show ?thesis by (rule early)
  next
    case False
    show ?thesis
    proof (cases "makedirs_output w")
      case None
      with Inr False show ?thesis by (rule looped)
    next
      case (Some e)
      with Inr False have "worker_try w cfg = (initial_state, Some e)"
        by (simp add: worker_try_def)
      then show ?thesis by (rule early)
    qed
  qed
qed

lemma enumerate_split:
  assumes "j < length xs"
  shows "enumerate 0 xs =
    enumerate 0 (take j xs) @ (j, xs ! j) # enumerate (Suc j) (drop (Suc j) xs)"
proof -
  have "enumerate 0 xs = enumerate 0 (take j xs @ xs ! j # drop (Suc j) xs)"
    using assms by (simp add: id_take_nth_drop [symmetric])
  also have "\<dots> = enumerate 0 (take j xs) @ (j, xs ! j) # enumerate (Suc j) (drop (Suc j) xs)"
    using assms by (simp add: enumerate_append_eq min_def)
  finally show ?thesis .
qed

lemma mail_merge_worker_alt:
  "mail_merge_worker w cfg =
     (case snd (worker_try w cfg) of
        Some e \<Rightarrow> put [Status Error_during_mail_merge, Error e, Status Ready]
                   (fst (worker_try w cfg))
      | None \<Rightarrow> put [Status Ready] (fst (worker_try w cfg)))"
  by (cases "worker_try w cfg") (simp add: mail_merge_worker_def split: option.splits)

text \<open>
  Claim C4. With skipping of errors off, when the first failing record has index \<open>j\<close>,
  the run aborts with \<open>j\<close> successes and one error, and the records attempted are
  exactly those of index \<open>0\<close> to \<open>j\<close>.
\<close>

theorem first_failure_aborts:
  assumes "\<not> skip_errors cfg" "loaded w = Inr records" "makedirs_output w = None"
    and "j < length records" "fails w cfg (j, records ! j)"
    and "\<forall>i<j. \<not> fails w cfg (i, records ! i)"
  shows "aborted w cfg \<and>
    success_count (mail_merge_worker w cfg) = j \<and>
    error_count (mail_merge_worker w cfg) = 1 \<and>
    attempted (mail_merge_worker w cfg) = {0..j}"
proof -
  let ?pre = "enumerate 0 (take j records)"
  let ?post = "enumerate (Suc j) (drop (Suc j) records)"
  let ?R = "process_records w cfg (length records) (enumerate 0 records) initial_state"
  from assms(4) have ne: "records \<noteq> []" by auto
  have rows: "enumerate 0 records = ?pre @ (j, records ! j) # ?post"
    using assms(4) by (rule enumerate_split)
  have pre: "list_all (\<lambda>row. \<not> fails w cfg row) ?pre"
  proof -
    have "\<not> fails w cfg row" if "row \<in> set ?pre" for row
    proof -
      from that assms(4) have "fst row < j" "snd row = records ! fst row"
        by (auto simp: in_set_enumerate_eq)
      with assms(6) have "\<not> fails w cfg (fst row, snd row)" by simp
      then show ?thesis by simp
    qed
    then show ?thesis by (simp add: list_all_iff)
  qed
  have L: "snd ?R = snd (process_record w cfg j (records ! j)) \<and>
    success_count (fst ?R) = success_count initial_state + length ?pre \<and>
    error_count (fst ?R) = error_count initial_state + 1 \<and>
    skipped_count (fst ?R) = skipped_count initial_state \<and>
    attempted (fst ?R) = attempted initial_state \<union> fst ` set ?pre \<union> {j}"
    unfolding rows by (rule process_records_abort [OF assms(1,5) pre])
  from assms(5) have raised: "snd (process_record w cfg j (records ! j)) \<noteq> None"
    by (simp add: fails_def)
  with L have some: "snd ?R \<noteq> None" by simp
  from L assms(4) have succ: "success_count (fst ?R) = j" by simp
  from L have err: "error_count (fst ?R) = 1" by simp
  have "fst ` set ?pre = {0..<j}"
    using assms(4) by (simp add: fst_set_enumerate min_def)
  with L have att: "attempted (fst ?R) = {0..j}"
    by (simp add: atLeastLessThanSuc_atLeastAtMost [symmetric] atLeastLessThanSuc)
  from some have wt: "worker_try w cfg = ?R"
    by (auto simp: worker_try_loop [OF assms(2) ne assms(3)] Let_def)
  from some obtain e where e: "snd ?R = Some e" by auto
  have mmw: "mail_merge_worker w cfg =
      put [Status Error_during_mail_merge, Error e, Status Ready] (fst ?R)"
    using e by (simp add: mail_merge_worker_alt wt)
  have "aborted w cfg" using some by (simp add: aborted_def wt)
  moreover have "success_count (mail_merge_worker w cfg) = j" unfolding mmw using succ by simp
  moreover have "error_count (mail_merge_worker w cfg) = 1" unfolding mmw using err by simp
  moreover have "attempted (mail_merge_worker w cfg) = {0..j}" unfolding mmw using att by simp
  ultimately show ?thesis by simp
qed

lemma worker_try_early:
  assumes "worker_try w cfg = (initial_state, Some e)"
  shows "mail_merge_worker w cfg =
    put [Status Error_during_mail_merge, Error e, Status Ready] initial_state"
    and "aborted w cfg"
  using assms by (simp_all add: mail_merge_worker_alt aborted_def)

lemma worker_completed:
  assumes "loaded w = Inr records" "records \<noteq> []" "makedirs_output w = None"
    and "snd (process_records w cfg (length records) (enumerate 0 records) initial_state) = None"
  shows "mail_merge_worker w cfg =
    put [Status Ready]
      (put [Progress 100,
            Status (Completed_in (elapsed w)
              (success_count (fst (process_records w cfg (length records) (enumerate 0 records)
                 initial_state)))
              (error_count (fst (process_records w cfg (length records) (enumerate 0 records)
                 initial_state)))),
            Success (result_msg w (fst (process_records w cfg (length records)
              (enumerate 0 records) initial_state)))]
         (fst (process_records w cfg (length records) (enumerate 0 records) initial_state)))"
    and "\<not> aborted w cfg"
  using assms(4)
  by (simp_all add: mail_merge_worker_alt aborted_def worker_try_loop [OF assms(1-3)] Let_def)



text \<open>
  Claim C10. With skipping of errors on, the error counter equals the skipped counter at
  the end of the run, the summary shows the same for both, and a run that completes
  enqueues that summary; in a run that reaches the loop both counters are the number of
  failing records.
\<close>

theorem errors_equal_skipped:
  assumes "skip_errors cfg"
  shows "error_count (mail_merge_worker w cfg) = skipped_count (mail_merge_worker w cfg) \<and>
    errors (result_msg w (mail_merge_worker w cfg)) =
      skipped (result_msg w (mail_merge_worker w cfg)) \<and>
    (\<not> aborted w cfg \<longrightarrow>
       Success (result_msg w (mail_merge_worker w cfg)) \<in> set (queue (mail_merge_worker w cfg))) \<and>
    (loaded w = Inr records \<and> records \<noteq> [] \<and> makedirs_output w = None \<longrightarrow>
       error_count (mail_merge_worker w cfg) =
         length (filter (fails w cfg) (enumerate 0 records)) \<and>
       skipped_count (mail_merge_worker w cfg) =
         length (filter (fails w cfg) (enumerate 0 records)))"
proof -
  have equal: "error_count (mail_merge_worker w cfg) = skipped_count (mail_merge_worker w cfg) \<and>
    errors (result_msg w (mail_merge_worker w cfg)) =
      skipped (result_msg w (mail_merge_worker w cfg)) \<and>
    (\<not> aborted w cfg \<longrightarrow>
       Success (result_msg w (mail_merge_worker w cfg)) \<in> set (queue (mail_merge_worker w cfg)))"
  proof (cases w cfg rule: worker_try_cases)
    case (early e)
    show ?thesis
      unfolding worker_try_early [OF early] using worker_try_early(2) [OF early]
      by (simp add: result_msg_def)
  next
    case (looped rs)
    let ?R = "process_records w cfg (length rs) (enumerate 0 rs) initial_state"
    note L = process_records_skip_errors [OF assms, of w "length rs" "enumerate 0 rs"
        initial_state]
    from L have None: "snd ?R = None" by simp
    from L have eq: "error_count (fst ?R) = skipped_count (fst ?R)" by simp
    show ?thesis
      unfolding worker_completed(1) [OF looped None]
      using eq by (simp add: result_msg_def)
  qed
  have both: "error_count (mail_merge_worker w cfg) =
        length (filter (fails w cfg) (enumerate 0 records)) \<and>
      skipped_count (mail_merge_worker w cfg) =
        length (filter (fails w cfg) (enumerate 0 records))"
    if h: "loaded w = Inr records" "records \<noteq> []" "makedirs_output w = None"
  proof -
    let ?R = "process_records w cfg (length records) (enumerate 0 records) initial_state"
    note L = process_records_skip_errors [OF assms, of w "length records" "enumerate 0 records"
        initial_state]
    from L have None: "snd ?R = None" by simp
    show ?thesis
      unfolding worker_completed(1) [OF h None] using L by simp
  qed
  from equal both show ?thesis by blast
qed









text \<open>
  An empty batch is refused before the loop: the run ends in the error handler also with
  skipping of errors on, and reports no counts.
\<close>

theorem empty_batch_aborts:
  "skip_errors example_config \<and> loaded (example_world []) = Inr [] \<and>
   aborted (example_world []) example_config \<and>
   queue (mail_merge_worker (example_world []) example_config) =
     [Status Initializing, Progress 0, Status Error_during_mail_merge,
      Error (ValueError ''No records found in data source''), Status Ready]"
  by (simp add: example_config_def example_world_def aborted_def worker_try_def
      mail_merge_worker_def put_def initial_state_def)

theorem skip_errors_counts_witness:
  "skip_errors example_config \<and>
   loaded (example_world [ann, bob, ann]) = Inr [ann, bob, ann] \<and>
   makedirs_output (example_world [ann, bob, ann]) = None \<and>
   length (filter (fails (example_world [ann, bob, ann]) example_config)
     (enumerate 0 [ann, bob, ann])) = 1 \<and>
   \<not> aborted (example_world [ann, bob, ann]) example_config \<and>
   attempted (mail_merge_worker (example_world [ann, bob, ann]) example_config) = {0..<3} \<and>
   success_count (mail_merge_worker (example_world [ann, bob, ann]) example_config) = 2 \<and>
   error_count (mail_merge_worker (example_world [ann, bob, ann]) example_config) = 1 \<and>
   Status (Completed_in 2 2 1)
     \<in> set (queue (mail_merge_worker (example_world [ann, bob, ann]) example_config))"
proof -
  have h1: "skip_errors example_config" by (simp add: example_config_def)
  have h2: "loaded (example_world [ann, bob, ann]) = Inr [ann, bob, ann]"
    by (simp add: example_world_def)
  have h3: "[ann, bob, ann] \<noteq> []" by simp
  have h4: "makedirs_output (example_world [ann, bob, ann]) = None"
    by (simp add: example_world_def)
  have k: "length (filter (fails (example_world [ann, bob, ann]) example_config)
     (enumerate 0 [ann, bob, ann])) = 1"
    by code_simp
  have e: "elapsed (example_world [ann, bob, ann]) = 2" by (simp add: example_world_def)
  have n3: "length [ann, bob, ann] = 3" by simp
  have n2: "(3::nat) - 1 = 2" by simp
  note T = skip_errors_counts [OF h1 h2 h3 h4, unfolded k e n3 n2]
  from T h1 h2 h4 k show ?thesis by blast
qed

theorem first_failure_aborts_witness:
  "\<not> skip_errors strict_config \<and>
   loaded (example_world [ann, bob, ann]) = Inr [ann, bob, ann] \<and>
   makedirs_output (example_world [ann, bob, ann]) = None \<and>
   fails (example_world [ann, bob, ann]) strict_config (1, [ann, bob, ann] ! 1) \<and>
   \<not> fails (example_world [ann, bob, ann]) strict_config (0, [ann, bob, ann] ! 0) \<and>
   aborted (example_world [ann, bob, ann]) strict_config \<and>
   success_count (mail_merge_worker (example_world [ann, bob, ann]) strict_config) = 1 \<and>
   error_count (mail_merge_worker (example_world [ann, bob, ann]) strict_config) = 1 \<and>
   attempted (mail_merge_worker (example_world [ann, bob, ann]) strict_config) = {0..1}"
proof -
  have h1: "\<not> skip_errors strict_config" by (simp add: strict_config_def)
  have h2: "loaded (example_world [ann, bob, ann]) = Inr [ann, bob, ann]"
    by (simp add: example_world_def)
  have h3: "makedirs_output (example_world [ann, bob, ann]) = None"
    by (simp add: example_world_def)
  have h4: "1 < length [ann, bob, ann]" by simp
  have h5: "fails (example_world [ann, bob, ann]) strict_config (1, [ann, bob, ann] ! 1)"
    by code_simp
  have h0: "\<not> fails (example_world [ann, bob, ann]) strict_config (0, [ann, bob, ann] ! 0)"
    by code_simp
  then have h6: "\<forall>i<1. \<not> fails (example_world [ann, bob, ann]) strict_config
      (i, [ann, bob, ann] ! i)"
    by simp
  from first_failure_aborts [OF h1 h2 h3 h4 h5 h6] h1 h2 h3 h5 h0 show ?thesis by blast
qed





theorem errors_equal_skipped_witness:
  "skip_errors example_config \<and>
   \<not> aborted (example_world [ann, bob, ann]) example_config \<and>
   error_count (mail_merge_worker (example_world [ann, bob, ann]) example_config) = 1 \<and>
   skipped_count (mail_merge_worker (example_world [ann, bob, ann]) example_config) = 1 \<and>
   Success (result_msg (example_world [ann, bob, ann])
       (mail_merge_worker (example_world [ann, bob, ann]) example_config))
     \<in> set (queue (mail_merge_worker (example_world [ann, bob, ann]) example_config))"
proof -
  have h1: "skip_errors example_config" by (simp add: example_config_def)
  have b: "\<not> aborted (example_world [ann, bob, ann]) example_config" by code_simp
  have e: "error_count (mail_merge_worker (example_world [ann, bob, ann]) example_config) = 1"
    by code_simp
  from errors_equal_skipped [OF h1, of "example_world [ann, bob, ann]"] h1 b e
  show ?thesis by simp
qed

section \<open>Output folders\<close>

lemma run_steps_in_place:
  "list_all (step_in_place word pdf temp) ss \<Longrightarrow>
   list_all (call_in_place word pdf temp) (fst (run_steps r ss))"
  by (induction r ss rule: run_steps.induct) (auto split: option.splits prod.splits)

lemma run_steps_done:
  "snd (run_steps r ss) = None \<Longrightarrow> Call c \<in> set ss \<Longrightarrow> c \<in> set (fst (run_steps r ss))"
  by (induction r ss rule: run_steps.induct) (auto split: option.splits prod.splits)

lemma run_steps_no_raise:
  "snd (run_steps r ss) = None \<Longrightarrow> Raise e \<notin> set ss"
  by (induction r ss rule: run_steps.induct) (auto split: option.splits prod.splits)

lemma makedirs_in_place: "list_all (step_in_place word pdf temp) (makedirs c)"
  by (cases c) simp_all

lemma create_pdf_steps_in_place:
  "doc_path = None \<or> doc_path = Some p \<and> p \<in> set word \<Longrightarrow>
   list_all (step_in_place word (targets w pdf_folder base ''.pdf'') (temp_path w cfg i))
     (create_pdf_steps w cfg i pdf_folder base doc_path)"
  by (cases pdf_folder) (auto simp: create_pdf_steps_def Let_def)

lemma save_steps_in_place:
  "list_all (step_in_place (targets w doc_folder base ''.docx'')
       (targets w pdf_folder base ''.pdf'') (temp_path w cfg i))
     (save_steps w cfg i doc_folder pdf_folder base)"
  using create_pdf_steps_in_place [of None _ _ w pdf_folder base cfg i]
    create_pdf_steps_in_place [of "Some (path_join w d base')" "path_join w d base'" _ w pdf_folder
      base cfg i for d base']
  by (cases doc_folder) (auto simp: save_steps_def)

lemma create_pdf_steps_complete:
  "\<forall>e. Raise e \<notin> set (create_pdf_steps w cfg i pdf_folder base doc_path) \<Longrightarrow>
   \<exists>a p. p \<in> set (targets w pdf_folder base ''.pdf'') \<and>
     Call (Convert a p) \<in> set (create_pdf_steps w cfg i pdf_folder base doc_path)"
  by (cases pdf_folder) (auto simp: create_pdf_steps_def Let_def)

lemma save_steps_complete:
  assumes "\<forall>e. Raise e \<notin> set (save_steps w cfg i doc_folder pdf_folder base)"
  shows "create_word cfg \<Longrightarrow>
      \<exists>p. p \<in> set (targets w doc_folder base ''.docx'') \<and>
        Call (Save p) \<in> set (save_steps w cfg i doc_folder pdf_folder base)"
    and "create_pdf cfg \<Longrightarrow>
      \<exists>a p. p \<in> set (targets w pdf_folder base ''.pdf'') \<and>
        Call (Convert a p) \<in> set (save_steps w cfg i doc_folder pdf_folder base)"
proof -
  show "\<exists>p. p \<in> set (targets w doc_folder base ''.docx'') \<and>
        Call (Save p) \<in> set (save_steps w cfg i doc_folder pdf_folder base)"
    if "create_word cfg"
    using that assms by (cases doc_folder) (auto simp: save_steps_def)
  show "\<exists>a p. p \<in> set (targets w pdf_folder base ''.pdf'') \<and>
        Call (Convert a p) \<in> set (save_steps w cfg i doc_folder pdf_folder base)"
    if pdf: "create_pdf cfg"
  proof (cases "create_word cfg")
    case False
    with pdf have eq: "save_steps w cfg i doc_folder pdf_folder base =
        create_pdf_steps w cfg i pdf_folder base None"
      by (simp add: save_steps_def)
    show ?thesis unfolding eq by (rule create_pdf_steps_complete) (use assms eq in simp)
  next
    case True
    show ?thesis
    proof (cases doc_folder)
      case (NonText b v)
      with True assms show ?thesis by (simp add: save_steps_def)
    next
      case (Text d)
      let ?p = "path_join w d (base @ ''.docx'')"
      from True pdf Text have eq: "save_steps w cfg i doc_folder pdf_folder base =
          Call (Save ?p) # create_pdf_steps w cfg i pdf_folder base (Some ?p)"
        by (simp add: save_steps_def)
      from assms have "\<forall>e. Raise e \<notin> set (create_pdf_steps w cfg i pdf_folder base (Some ?p))"
        unfolding eq by simp
      then have "\<exists>a p. p \<in> set (targets w pdf_folder base ''.pdf'') \<and>
          Call (Convert a p) \<in> set (create_pdf_steps w cfg i pdf_folder base (Some ?p))"
        by (rule create_pdf_steps_complete)
      then show ?thesis unfolding eq by auto
    qed
  qed
qed

lemma list_ex_is_save_to: "p \<in> set ps \<Longrightarrow> Save p \<in> set cs \<Longrightarrow> list_ex (is_save_to ps) cs"
  by (auto simp: list_ex_iff intro: bexI [of _ "Save p"])

lemma list_ex_is_convert_to:
  "p \<in> set ps \<Longrightarrow> Convert a p \<in> set cs \<Longrightarrow> list_ex (is_convert_to ps) cs"
  by (auto simp: list_ex_iff intro: bexI [of _ "Convert a p"])

lemma folder_paths:
  "doc_folder_path cfg record = spec_folder record ''DocFolderPath'' cfg"
  "pdf_folder_path cfg record = spec_folder record ''PdfFolderPath'' cfg"
  by (simp_all add: doc_folder_path_def pdf_folder_path_def record_get_def spec_folder_def)

lemma outputs_of_steps:
  assumes run: "run_steps r (pre @ save_steps w cfg i (doc_folder_path cfg record)
      (pdf_folder_path cfg record) base) = (cs, None)"
    and pre: "list_all (step_in_place (targets w (doc_folder_path cfg record) base ''.docx'')
      (targets w (pdf_folder_path cfg record) base ''.pdf'') (temp_path w cfg i)) pre"
  shows "spec_outputs w cfg i record base cs"
proof -
  let ?save = "save_steps w cfg i (doc_folder_path cfg record) (pdf_folder_path cfg record) base"
  let ?word = "targets w (doc_folder_path cfg record) base ''.docx''"
  let ?pdf = "targets w (pdf_folder_path cfg record) base ''.pdf''"
  from run have cs: "cs = fst (run_steps r (pre @ ?save))"
    and none: "snd (run_steps r (pre @ ?save)) = None"
    by simp_all
  from none have nr: "\<forall>e. Raise e \<notin> set ?save"
    using run_steps_no_raise [of r "pre @ ?save"] by simp
  have "list_all (step_in_place ?word ?pdf (temp_path w cfg i)) (pre @ ?save)"
    using pre save_steps_in_place [of w "doc_folder_path cfg record" base
        "pdf_folder_path cfg record" cfg i]
    by simp
  then have place: "list_all (call_in_place ?word ?pdf (temp_path w cfg i)) cs"
    unfolding cs by (rule run_steps_in_place)
  have word: "list_ex (is_save_to ?word) cs" if "create_word cfg"
  proof -
    from save_steps_complete(1) [OF nr that] obtain p
      where p: "p \<in> set ?word" "Call (Save p) \<in> set ?save" by blast
    from p(2) have "Save p \<in> set cs"
      unfolding cs by (intro run_steps_done [OF none]) simp
    with p(1) show ?thesis by (rule list_ex_is_save_to)
  qed
  have pdf: "list_ex (is_convert_to ?pdf) cs" if "create_pdf cfg"
  proof -
    from save_steps_complete(2) [OF nr that] obtain a p
      where p: "p \<in> set ?pdf" "Call (Convert a p) \<in> set ?save" by blast
    from p(2) have "Convert a p \<in> set cs"
      unfolding cs by (intro run_steps_done [OF none]) simp
    with p(1) show ?thesis by (rule list_ex_is_convert_to)
  qed
  from place word pdf show ?thesis
    by (simp add: spec_outputs_def Let_def folder_paths)
qed

lemma backup_in_place:
  "list_all (step_in_place word pdf temp) (backup_existing_files w doc_folder pdf_folder base)"
  by (cases doc_folder; cases pdf_folder) (simp_all add: backup_existing_files_def)

text \<open>
  Claim C9. In both versions, the iteration of a record that raises nothing writes the
  Word file into the folder of the field \<open>DocFolderPath\<close> and the PDF file into the
  folder of the field \<open>PdfFolderPath\<close> when the record has the field, and into the
  output directory of the run otherwise; it writes no other file than the temporary
  Word document.
\<close>

theorem output_folders:
  "(process_record w cfg i record = (cs, None) \<longrightarrow>
      spec_outputs w cfg i record (generate_filename record (filename_pattern cfg) i) cs) \<and>
   (v1_process_record w cfg i record = Some (cs, None) \<longrightarrow>
      (\<exists>first_name last_name.
         get_strip (record_get record ''First Name'' []) = Inr first_name \<and>
         get_strip (record_get record ''Last Name'' []) = Inr last_name \<and>
         spec_outputs w cfg i record (v1_base_filename i first_name last_name) cs))"
proof (intro conjI impI)
  let ?doc = "doc_folder_path cfg record"
  let ?pdf = "pdf_folder_path cfg record"
  assume run: "process_record w cfg i record = (cs, None)"
  let ?base = "generate_filename record (filename_pattern cfg) i"
  let ?pre = "[Call (Load_template (template_path cfg)), Call Render] @ makedirs ?doc @
      (if create_pdf cfg then makedirs ?pdf else []) @
      (if backup_existing cfg then backup_existing_files w ?doc ?pdf ?base else [])"
  have steps: "record_steps w cfg i record = ?pre @ save_steps w cfg i ?doc ?pdf ?base"
    by (simp add: record_steps_def Let_def)
  have pre: "list_all (step_in_place (targets w ?doc ?base ''.docx'')
      (targets w ?pdf ?base ''.pdf'') (temp_path w cfg i)) ?pre"
    by (simp add: makedirs_in_place backup_in_place)
  from run have "run_steps (raises w i) (?pre @ save_steps w cfg i ?doc ?pdf ?base) = (cs, None)"
    by (simp only: process_record_def steps)
  then show "spec_outputs w cfg i record ?base cs"
    using pre by (rule outputs_of_steps)
next
  let ?doc = "doc_folder_path cfg record"
  let ?pdf = "pdf_folder_path cfg record"
  let ?head = "[Call (Load_template (template_path cfg)), Call Render]"
  assume "v1_process_record w cfg i record = Some (cs, None)"
  then have run: "run_steps (raises w i) (v1_record_steps w cfg i record) = (cs, None)"
    by (simp add: v1_process_record_def split: if_splits)
  then have nr: "Raise e \<notin> set (v1_record_steps w cfg i record)" for e
    using run_steps_no_raise [of "raises w i" "v1_record_steps w cfg i record" e] by simp
  obtain first_name where f: "get_strip (record_get record ''First Name'' []) = Inr first_name"
    using nr by (cases "get_strip (record_get record ''First Name'' [])")
      (auto simp: v1_record_steps_def)
  obtain last_name where l: "get_strip (record_get record ''Last Name'' []) = Inr last_name"
    using nr f by (cases "get_strip (record_get record ''Last Name'' [])")
      (auto simp: v1_record_steps_def)
  let ?base = "v1_base_filename i first_name last_name"
  let ?pre = "?head @ makedirs ?doc @ (if create_pdf cfg then makedirs ?pdf else [])"
  have steps: "v1_record_steps w cfg i record = ?pre @ save_steps w cfg i ?doc ?pdf ?base"
    using f l by (simp add: v1_record_steps_def Let_def)
  have pre: "list_all (step_in_place (targets w ?doc ?base ''.docx'')
      (targets w ?pdf ?base ''.pdf'') (temp_path w cfg i)) ?pre"
    by (simp add: makedirs_in_place)
  from run have "run_steps (raises w i) (?pre @ save_steps w cfg i ?doc ?pdf ?base) = (cs, None)"
    by (simp only: steps)
  then have "spec_outputs w cfg i record ?base cs"
    using pre by (rule outputs_of_steps)
  with f l show "\<exists>first_name last_name.
      get_strip (record_get record ''First Name'' []) = Inr first_name \<and>
      get_strip (record_get record ''Last Name'' []) = Inr last_name \<and>
      spec_outputs w cfg i record (v1_base_filename i first_name last_name) cs"
    by blast
qed

theorem output_folders_witness:
  "process_record (example_world [ann, bob]) example_config 1 bob =
     ([Load_template ''template.docx'', Render], Some (Library ''render failed'')) \<and>
   process_record (example_world [ann, bob]) example_config 0 bob =
     ([Load_template ''template.docx'', Render, Makedirs ''letters'', Makedirs ''prints'',
       Save ''letters/Bob_Ray.docx'', Convert ''letters/Bob_Ray.docx'' ''prints/Bob_Ray.pdf''],
      None) \<and>
   spec_outputs (example_world [ann, bob]) example_config 0 bob ''Bob_Ray''
     [Load_template ''template.docx'', Render, Makedirs ''letters'', Makedirs ''prints'',
      Save ''letters/Bob_Ray.docx'', Convert ''letters/Bob_Ray.docx'' ''prints/Bob_Ray.pdf''] \<and>
   v1_process_record (example_world [dana]) example_config 0 dana =
     Some ([Load_template ''template.docx'', Render, Makedirs ''out'', Makedirs ''prints'',
       Save ''out/Dana_Fox.docx'', Convert ''out/Dana_Fox.docx'' ''prints/Dana_Fox.pdf''],
      None) \<and>
   (\<exists>first_name last_name.
      get_strip (record_get dana ''First Name'' []) = Inr first_name \<and>
      get_strip (record_get dana ''Last Name'' []) = Inr last_name \<and>
      spec_outputs (example_world [dana]) example_config 0 dana
        (v1_base_filename 0 first_name last_name)
        [Load_template ''template.docx'', Render, Makedirs ''out'', Makedirs ''prints'',
         Save ''out/Dana_Fox.docx'', Convert ''out/Dana_Fox.docx'' ''prints/Dana_Fox.pdf''])"
proof -
  have r0: "process_record (example_world [ann, bob]) example_config 1 bob =
     ([Load_template ''template.docx'', Render], Some (Library ''render failed''))"
    by code_simp
  have r2: "process_record (example_world [ann, bob]) example_config 0 bob =
     ([Load_template ''template.docx'', Render, Makedirs ''letters'', Makedirs ''prints'',
       Save ''letters/Bob_Ray.docx'', Convert ''letters/Bob_Ray.docx'' ''prints/Bob_Ray.pdf''],
      None)"
    by code_simp
  have g: "generate_filename bob (filename_pattern example_config) 0 = ''Bob_Ray''"
    by code_simp
  have r1: "v1_process_record (example_world [dana]) example_config 0 dana =
     Some ([Load_template ''template.docx'', Render, Makedirs ''out'', Makedirs ''prints'',
       Save ''out/Dana_Fox.docx'', Convert ''out/Dana_Fox.docx'' ''prints/Dana_Fox.pdf''],
      None)"
    by code_simp
  note T2 = output_folders [THEN conjunct1, rule_format, OF r2, unfolded g]
  note T1 = output_folders [THEN conjunct2, rule_format, OF r1]
  from r0 r2 T2 r1 T1 show ?thesis by blast
qed

end
